theory Spec2Isabelle
  imports Main "HOL-Library.Sublist" "HOL-Library.Code_Target_Nat"
begin

section \<open>The data of the program\<close>

type_synonym pystr = "nat list"

text \<open>\<open>CommandResult\<close> of the wrapper: what the filter and the updater read of a command.\<close>

record event =
  command :: pystr
  stdout :: pystr
  stderr :: pystr
  exit_code :: int
  duration_ms :: int
  working_dir :: pystr
  timestamp :: pystr   \<comment> \<open>the completion time, as \<open>strftime("%Y-%m-%d %H:%M:%S")\<close> renders it\<close>

datatype event_type = ERROR | SUCCESS | DECISION | NOISE

text \<open>
  A \<open>datetime\<close>, as far as the program looks at it: the text \<open>isoformat()\<close> gives and
  the instant in microseconds.
\<close>

record datetime =
  iso :: pystr
  micros :: int

datatype pyval = PStr pystr | PInt int | PNone

type_synonym pydict = "pystr \<rightharpoonup> pyval"

text \<open>
  What a callback can raise: an instance of \<open>Exception\<close>, which \<open>except Exception\<close>
  catches, or one of the few exceptions outside that class (\<open>SystemExit\<close>,
  \<open>KeyboardInterrupt\<close>), which it lets through.
\<close>

datatype raised = Exception_instance pystr | Base_exception pystr

text \<open>
  \<open>HeartbeatService\<close>. The two callbacks act on the world outside the service, of type
  \<open>'w\<close>: the provider returns a dictionary or raises, the sink returns or raises. A
  provider that returns something \<open>stats.update\<close> refuses raises inside the same
  \<open>try\<close> block and counts as a provider that raises. The thread handle is not
  part of the model.
\<close>

record 'w heartbeat_service =
  interval :: int
  get_stats :: "('w \<Rightarrow> (raised + pydict) \<times> 'w) option"
  on_heartbeat :: "(pydict \<Rightarrow> 'w \<Rightarrow> raised option \<times> 'w) option"
  running :: bool
  session_start :: datetime
  heartbeat_count :: int

section \<open>Python strings\<close>

text \<open>
  A Python \<open>str\<close> is a sequence of Unicode code points, and \<open>len\<close>, slicing and
  indexing count code points. The model keeps that: a string is a list of code points,
  each a natural number. ASCII literals are written with \<open>asc\<close>; the two signs
  beyond ASCII that the entry titles use are given by their code points.
\<close>

definition asc :: "string \<Rightarrow> pystr" where
  "asc = map of_char"

definition NL :: nat where
  "NL = 10"

definition WARN_SIGN :: nat where
  \<comment> \<open>U+26A0, the sign in the error title\<close>
  "WARN_SIGN = 9888"

definition CHECK_MARK :: nat where
  \<comment> \<open>U+2713, the sign in the success title\<close>
  "CHECK_MARK = 10003"

definition is_space :: "nat \<Rightarrow> bool" where
  \<comment> \<open>\<open>str.isspace\<close> of one code point: the whitespace of \<open>strip()\<close> and \<open>split()\<close>\<close>
  "is_space c \<longleftrightarrow>
     (9 \<le> c \<and> c \<le> 13) \<or> (28 \<le> c \<and> c \<le> 32) \<or> c = 133 \<or> c = 160 \<or> c = 5760 \<or>
     (8192 \<le> c \<and> c \<le> 8202) \<or> c = 8232 \<or> c = 8233 \<or> c = 8239 \<or> c = 8287 \<or> c = 12288"

definition lstrip :: "pystr \<Rightarrow> pystr" where
  "lstrip s = dropWhile is_space s"

definition rstrip :: "pystr \<Rightarrow> pystr" where
  "rstrip s = rev (dropWhile is_space (rev s))"

definition strip :: "pystr \<Rightarrow> pystr" where
  \<comment> \<open>\<open>s.strip()\<close>\<close>
  "strip s = rstrip (lstrip s)"

definition slice_to :: "int \<Rightarrow> 'a list \<Rightarrow> 'a list" where
  \<comment> \<open>\<open>xs[:n]\<close>; a negative \<open>n\<close> counts from the end\<close>
  "slice_to n xs = (if 0 \<le> n then take (nat n) xs else take (nat (int (length xs) + n)) xs)"

fun str_nat :: "nat \<Rightarrow> pystr" where
  "str_nat n = (if n < 10 then [48 + n] else str_nat (n div 10) @ [48 + n mod 10])"

declare str_nat.simps [simp del]

definition str_int :: "int \<Rightarrow> pystr" where
  \<comment> \<open>\<open>str(i)\<close>, the text an f-string puts for an integer\<close>
  "str_int i = (if i < 0 then asc ''-'' @ str_nat (nat (- i)) else str_nat (nat i))"

section \<open>Lines, substrings and separators\<close>

fun split_on :: "nat \<Rightarrow> pystr \<Rightarrow> pystr list" where
  \<comment> \<open>\<open>s.split(c)\<close> for a separator of one character\<close>
  "split_on c [] = [[]]"
| "split_on c (x # xs) =
     (if x = c then [] # split_on c xs
      else (case split_on c xs of [] \<Rightarrow> [[x]] | y # ys \<Rightarrow> (x # y) # ys))"

fun join :: "pystr \<Rightarrow> pystr list \<Rightarrow> pystr" where
  \<comment> \<open>\<open>sep.join(parts)\<close>\<close>
  "join sep [] = []"
| "join sep [x] = x"
| "join sep (x # y # ys) = x @ sep @ join sep (y # ys)"

fun contains :: "pystr \<Rightarrow> pystr \<Rightarrow> bool" where
  \<comment> \<open>\<open>p in s\<close>\<close>
  "contains p [] = (p = [])"
| "contains p (x # xs) = (prefix p (x # xs) \<or> contains p xs)"


fun split_ws_aux :: "pystr \<Rightarrow> pystr \<Rightarrow> pystr list" where
  "split_ws_aux cur [] = (if cur = [] then [] else [cur])"
| "split_ws_aux cur (x # xs) =
     (if is_space x then (if cur = [] then split_ws_aux [] xs else cur # split_ws_aux [] xs)
      else split_ws_aux (cur @ [x]) xs)"

definition split_ws :: "pystr \<Rightarrow> pystr list" where
  \<comment> \<open>\<open>s.split()\<close>: the words between runs of whitespace\<close>
  "split_ws s = split_ws_aux [] s"

section \<open>The truncation rule of the updater\<close>

text \<open>
  \<^verbatim>\<open>
  def _truncate(self, text, max_length):
      if not text:
          return ""
      text = text.strip()
      if len(text) <= max_length:
          return text
      return text[:max_length] + f"\n... (truncated, {len(text)} total chars)"
  \<close>
\<close>

definition truncate :: "pystr \<Rightarrow> int \<Rightarrow> pystr" where
  "truncate text max_length =
     (if text = [] then []
      else let t = strip text in
        if int (length t) \<le> max_length then t
        else slice_to max_length t @
             [NL] @ asc ''... (truncated, '' @ str_nat (length t) @ asc '' total chars)'')"

section \<open>Regular expressions\<close>

text \<open>
  The patterns of the source are written as terms of \<open>re\<close>, and matched the way
  Python's \<open>re\<close> module does: a backtracking matcher that tries the alternatives in
  priority order (the left branch of \<open>|\<close> first, one more repetition before stopping
  for the greedy \<open>*\<close>, \<open>+\<close>, \<open>?\<close> and \<open>{m,n}\<close>). A configuration is the character
  before the cursor (for \<open>^\<close> and \<open>\b\<close>), the text from the cursor on, and what
  group 1 has captured. \<open>ms r c\<close> lists the configurations in which a match of \<open>r\<close>
  from \<open>c\<close> can end, the one Python prefers first.
\<close>

datatype re =
    Sym "nat \<Rightarrow> bool"   \<comment> \<open>one character of a class\<close>
  | Eps                  \<comment> \<open>the empty pattern\<close>
  | Bol                  \<comment> \<open>\<open>^\<close>\<close>
  | Wb "nat \<Rightarrow> bool"    \<comment> \<open>\<open>\b\<close>, for the given class of word characters\<close>
  | Cat re re
  | Alt re re
  | Star re
  | Grp re               \<comment> \<open>the capturing group\<close>

type_synonym cfg = "nat option \<times> pystr \<times> pystr option"

definition at_word :: "(nat \<Rightarrow> bool) \<Rightarrow> nat option \<Rightarrow> bool" where
  "at_word w c = (case c of None \<Rightarrow> False | Some x \<Rightarrow> w x)"

definition next_char :: "pystr \<Rightarrow> nat option" where
  "next_char s = (case s of [] \<Rightarrow> None | x # _ \<Rightarrow> Some x)"

fun ms :: "re \<Rightarrow> cfg \<Rightarrow> cfg list" where
  "ms (Sym p) c =
     (case fst (snd c) of [] \<Rightarrow> []
      | x # xs \<Rightarrow> if p x then [(Some x, xs, snd (snd c))] else [])"
| "ms Eps c = [c]"
| "ms Bol c = (if fst c = None then [c] else [])"
| "ms (Wb w) c = (if at_word w (fst c) \<noteq> at_word w (next_char (fst (snd c))) then [c] else [])"
| "ms (Cat a b) c = concat (map (ms b) (ms a c))"
| "ms (Alt a b) c = ms a c @ ms b c"
| "ms (Star a) c =
     concat (map (\<lambda>d. if length (fst (snd d)) < length (fst (snd c)) then ms (Star a) d else [])
              (ms a c)) @ [c]"
| "ms (Grp a) c =
     map (\<lambda>d. (fst d, fst (snd d),
                Some (take (length (fst (snd c)) - length (fst (snd d))) (fst (snd c)))))
         (ms a c)"

definition Opt :: "re \<Rightarrow> re" where
  \<comment> \<open>\<open>r?\<close>\<close>
  "Opt r = Alt r Eps"

definition Plus :: "re \<Rightarrow> re" where
  \<comment> \<open>\<open>r+\<close>\<close>
  "Plus r = Cat r (Star r)"

fun UpTo :: "nat \<Rightarrow> re \<Rightarrow> re" where
  \<comment> \<open>\<open>r{0,n}\<close>\<close>
  "UpTo 0 r = Eps"
| "UpTo (Suc n) r = Opt (Cat r (UpTo n r))"

definition Chr :: "nat \<Rightarrow> re" where
  "Chr x = Sym (\<lambda>c. c = x)"

fun Lit :: "pystr \<Rightarrow> re" where
  \<comment> \<open>a literal text\<close>
  "Lit [] = Eps"
| "Lit (x # xs) = Cat (Chr x) (Lit xs)"

definition group1 :: "cfg \<Rightarrow> pystr" where
  \<comment> \<open>\<open>match.group(1)\<close>; a group that took no part gives the empty text in \<open>findall\<close>\<close>
  "group1 c = (case snd (snd c) of None \<Rightarrow> [] | Some g \<Rightarrow> g)"

fun re_search :: "re \<Rightarrow> nat option \<Rightarrow> pystr \<Rightarrow> cfg option" where
  \<comment> \<open>\<open>re.search(r, s)\<close>: the preferred match at the leftmost position that has one\<close>
  "re_search r p s =
     (case ms r (p, s, None) of
        m # _ \<Rightarrow> Some m
      | [] \<Rightarrow> (case s of [] \<Rightarrow> None | x # xs \<Rightarrow> re_search r (Some x) xs))"

function re_findall :: "re \<Rightarrow> nat option \<Rightarrow> pystr \<Rightarrow> pystr list" where
  \<comment> \<open>\<open>re.findall(r, s)\<close> for a pattern with one group: the captures of the successive
      matches, each search resuming where the last match ended. No pattern of the source
      matches the empty text; after such a match the scan moves on by one character.\<close>
  "re_findall r p s =
     (case ms r (p, s, None) of
        [] \<Rightarrow> (case s of [] \<Rightarrow> [] | x # xs \<Rightarrow> re_findall r (Some x) xs)
      | m # _ \<Rightarrow>
          group1 m #
          (if length (fst (snd m)) < length s then re_findall r (fst m) (fst (snd m))
           else (case s of [] \<Rightarrow> [] | x # xs \<Rightarrow> re_findall r (Some x) xs)))"
  by pat_completeness auto
termination
  by (relation "measure (\<lambda>(r, p, s). length s)") auto

function re_sub :: "re \<Rightarrow> pystr \<Rightarrow> nat option \<Rightarrow> pystr \<Rightarrow> pystr" where
  \<comment> \<open>\<open>re.sub(r, repl, s)\<close> for a replacement text without backslashes\<close>
  "re_sub r repl p s =
     (case ms r (p, s, None) of
        [] \<Rightarrow> (case s of [] \<Rightarrow> [] | x # xs \<Rightarrow> x # re_sub r repl (Some x) xs)
      | m # _ \<Rightarrow>
          repl @
          (if length (fst (snd m)) < length s then re_sub r repl (fst m) (fst (snd m))
           else (case s of [] \<Rightarrow> [] | x # xs \<Rightarrow> x # re_sub r repl (Some x) xs)))"
  by pat_completeness auto
termination
  by (relation "measure (\<lambda>(r, repl, p, s). length s)") auto

declare re_search.simps [simp del]
declare re_findall.simps [simp del]
declare re_sub.simps [simp del]

section \<open>The event filter\<close>

text \<open>
  The Unicode tables behind \<open>str.lower\<close>, \<open>\w\<close>, \<open>\d\<close> and case-insensitive matching are
  not part of the repository. The model gives them on the ASCII range and treats every
  other code point as a caseless character that is neither a letter nor a digit. The
  theorems on the filter either hold whatever these tables are or evaluate the filter on
  ASCII text.
\<close>

definition lower_char :: "nat \<Rightarrow> nat" where
  "lower_char c = (if 65 \<le> c \<and> c \<le> 90 then c + 32 else c)"

definition lower :: "pystr \<Rightarrow> pystr" where
  "lower s = map lower_char s"

definition is_alpha :: "nat \<Rightarrow> bool" where
  \<comment> \<open>\<open>[a-zA-Z]\<close>\<close>
  "is_alpha c \<longleftrightarrow> (65 \<le> c \<and> c \<le> 90) \<or> (97 \<le> c \<and> c \<le> 122)"

definition is_digit :: "nat \<Rightarrow> bool" where
  "is_digit c \<longleftrightarrow> 48 \<le> c \<and> c \<le> 57"

definition is_word :: "nat \<Rightarrow> bool" where
  \<comment> \<open>\<open>\w\<close>\<close>
  "is_word c \<longleftrightarrow> is_alpha c \<or> is_digit c \<or> c = 95"

definition Dot :: re where
  \<comment> \<open>\<open>.\<close>: any character but the newline\<close>
  "Dot = Sym (\<lambda>c. c \<noteq> NL)"

definition Bnd :: re where
  \<comment> \<open>\<open>\b\<close>\<close>
  "Bnd = Wb is_word"

definition Seq :: "re list \<Rightarrow> re" where
  "Seq rs = foldr Cat rs Eps"

definition LitI :: "string \<Rightarrow> re" where
  \<comment> \<open>a literal under \<open>re.IGNORECASE\<close>\<close>
  "LitI w = Seq (map (\<lambda>x. Sym (\<lambda>c. lower_char c = lower_char x)) (asc w))"

definition Txt :: "string \<Rightarrow> re" where
  "Txt w = Lit (asc w)"

definition bs :: "string \<Rightarrow> pystr" where
  \<comment> \<open>a backslash and the text after it, for writing the source of a pattern\<close>
  "bs w = 92 # asc w"

definition IGNORE_COMMANDS :: "pystr list" where
  "IGNORE_COMMANDS = map asc
     [''ls'', ''ll'', ''la'', ''l'', ''dir'',
      ''cd'', ''pwd'',
      ''clear'', ''cls'',
      ''exit'', ''quit'',
      ''cat'', ''head'', ''tail'', ''less'', ''more'',
      ''echo'', ''printf'',
      ''which'', ''whereis'', ''type'',
      ''history'',
      ''whoami'', ''id'',
      ''date'', ''uptime'']"

definition SIGNIFICANT_PATTERNS :: "(pystr \<times> re) list" where
  \<comment> \<open>each pattern as the source writes it, and as it is matched under \<open>re.IGNORECASE\<close>\<close>
  "SIGNIFICANT_PATTERNS =
     [(bs ''berror'' @ bs ''b'', Seq [Bnd, LitI ''error'', Bnd]),
      (bs ''bError'' @ bs ''b'', Seq [Bnd, LitI ''Error'', Bnd]),
      (bs ''bERROR'' @ bs ''b'', Seq [Bnd, LitI ''ERROR'', Bnd]),
      (bs ''bexception'' @ bs ''b'', Seq [Bnd, LitI ''exception'', Bnd]),
      (bs ''bException'' @ bs ''b'', Seq [Bnd, LitI ''Exception'', Bnd]),
      (bs ''bEXCEPTION'' @ bs ''b'', Seq [Bnd, LitI ''EXCEPTION'', Bnd]),
      (bs ''btraceback'' @ bs ''b'', Seq [Bnd, LitI ''traceback'', Bnd]),
      (bs ''bTraceback'' @ bs ''b'', Seq [Bnd, LitI ''Traceback'', Bnd]),
      (bs ''bfail(ed|ure)?'' @ bs ''b'',
         Seq [Bnd, LitI ''fail'', Opt (Grp (Alt (LitI ''ed'') (LitI ''ure''))), Bnd]),
      (bs ''bFail(ed|ure)?'' @ bs ''b'',
         Seq [Bnd, LitI ''Fail'', Opt (Grp (Alt (LitI ''ed'') (LitI ''ure''))), Bnd]),
      (bs ''bFAIL'' @ bs ''b'', Seq [Bnd, LitI ''FAIL'', Bnd]),
      (bs ''bfatal'' @ bs ''b'', Seq [Bnd, LitI ''fatal'', Bnd]),
      (bs ''bFatal'' @ bs ''b'', Seq [Bnd, LitI ''Fatal'', Bnd]),
      (bs ''bFATAL'' @ bs ''b'', Seq [Bnd, LitI ''FATAL'', Bnd]),
      (bs ''bpanic'' @ bs ''b'', Seq [Bnd, LitI ''panic'', Bnd]),
      (bs ''bPanic'' @ bs ''b'', Seq [Bnd, LitI ''Panic'', Bnd]),
      (bs ''bPANIC'' @ bs ''b'', Seq [Bnd, LitI ''PANIC'', Bnd]),
      (bs ''bcrash(ed)?'' @ bs ''b'', Seq [Bnd, LitI ''crash'', Opt (Grp (LitI ''ed'')), Bnd]),
      (bs ''bCrash(ed)?'' @ bs ''b'', Seq [Bnd, LitI ''Crash'', Opt (Grp (LitI ''ed'')), Bnd]),
      (bs ''btimeout'' @ bs ''b'', Seq [Bnd, LitI ''timeout'', Bnd]),
      (bs ''bTimeout'' @ bs ''b'', Seq [Bnd, LitI ''Timeout'', Bnd]),
      (bs ''bcreated?'' @ bs ''b.*'' @ bs ''bfile'' @ bs ''b'',
         Seq [Bnd, LitI ''create'', Opt (LitI ''d''), Bnd, Star Dot, Bnd, LitI ''file'', Bnd]),
      (bs ''bmodified?'' @ bs ''b.*'' @ bs ''bfiles?'' @ bs ''b'',
         Seq [Bnd, LitI ''modifie'', Opt (LitI ''d''), Bnd, Star Dot, Bnd, LitI ''file'',
              Opt (LitI ''s''), Bnd]),
      (bs ''bpassed?'' @ bs ''b.*'' @ bs ''btests?'' @ bs ''b'',
         Seq [Bnd, LitI ''passe'', Opt (LitI ''d''), Bnd, Star Dot, Bnd, LitI ''test'',
              Opt (LitI ''s''), Bnd]),
      (bs ''bcommitted?'' @ bs ''b'', Seq [Bnd, LitI ''committe'', Opt (LitI ''d''), Bnd]),
      (bs ''bdeployed?'' @ bs ''b'', Seq [Bnd, LitI ''deploye'', Opt (LitI ''d''), Bnd]),
      (bs ''bbuild'' @ bs ''s+succeeded'' @ bs ''b'',
         Seq [Bnd, LitI ''build'', Plus (Sym is_space), LitI ''succeeded'', Bnd]),
      (bs ''ball'' @ bs ''s+tests'' @ bs ''s+passed'' @ bs ''b'',
         Seq [Bnd, LitI ''all'', Plus (Sym is_space), LitI ''tests'', Plus (Sym is_space),
              LitI ''passed'', Bnd])]"

definition ALWAYS_CAPTURE :: "pystr list" where
  "ALWAYS_CAPTURE = map asc
     [''git commit'', ''git push'', ''git merge'',
      ''go build'', ''go test'', ''go run'',
      ''npm test'', ''npm run build'', ''npm install'',
      ''pytest'', ''python -m pytest'',
      ''cargo build'', ''cargo test'',
      ''make'', ''make test'', ''make build'',
      ''docker build'', ''docker push'', ''docker compose'',
      ''kubectl apply'', ''kubectl deploy'']"

definition decision_patterns :: "re list" where
  "decision_patterns =
     [Seq [Bol, Txt ''git'', Plus (Sym is_space),
           Grp (Alt (Txt ''commit'') (Alt (Txt ''push'') (Alt (Txt ''merge'')
                (Alt (Txt ''rebase'') (Txt ''checkout'')))))],
      Seq [Bol, Txt ''gh'', Plus (Sym is_space)],
      Seq [Bol, Txt ''docker'', Plus (Sym is_space),
           Grp (Alt (Txt ''build'') (Alt (Txt ''push'') (Txt ''run'')))],
      Seq [Bol, Txt ''kubectl'', Plus (Sym is_space)],
      Seq [Bol, Txt ''terraform'', Plus (Sym is_space),
           Grp (Alt (Txt ''apply'') (Txt ''destroy''))]]"

definition found :: "re \<Rightarrow> pystr \<Rightarrow> bool" where
  \<comment> \<open>the truth value of \<open>re.search(r, s)\<close>\<close>
  "found r s \<longleftrightarrow> re_search r None s \<noteq> None"

definition classify :: "event \<Rightarrow> event_type" where
  "classify ev =
     (if exit_code ev \<noteq> 0 then ERROR
      else let cmd_parts = split_ws (strip (command ev)) in
        if cmd_parts = [] then NOISE
        else let base_cmd = lower (hd cmd_parts) in
          if List.member IGNORE_COMMANDS base_cmd then NOISE
          else let cmd_lower = lower (command ev) in
            if list_ex (\<lambda>pattern. contains pattern cmd_lower) ALWAYS_CAPTURE then SUCCESS
            else let combined_output = stdout ev @ [NL] @ stderr ev in
              (case find (\<lambda>pattern. found (snd pattern) combined_output) SIGNIFICANT_PATTERNS of
                 Some pattern \<Rightarrow>
                   if list_ex (\<lambda>p. contains p (lower (fst pattern)))
                        (map asc [''error'', ''fail'', ''exception'', ''panic'', ''crash''])
                   then ERROR else SUCCESS
               | None \<Rightarrow>
                   if list_ex (\<lambda>pattern. found pattern (command ev)) decision_patterns
                   then DECISION else NOISE))"

definition is_significant :: "event \<Rightarrow> bool" where
  "is_significant ev \<longleftrightarrow> classify ev \<noteq> NOISE"

definition priority_patterns :: "(re \<times> nat) list" where
  "priority_patterns =
     [(Seq [Txt ''panic: '', Grp (Plus Dot)], 1),
      (Seq [Txt ''Error: '', Grp (Plus Dot)], 1),
      (Seq [Txt ''ERROR'', Opt (Txt '':''), Txt '' '', Grp (Plus Dot)], 1),
      (Seq [Txt ''Fatal: '', Grp (Plus Dot)], 1),
      (Seq [Txt ''Exception: '', Grp (Plus Dot)], 1),
      (Seq [Txt ''Traceback'', Star Dot], 0),
      (Seq [Txt ''FAIL'', Opt (Txt ''ED''), Opt (Txt '':''), Txt '' '', Grp (Plus Dot)], 1)]"

fun match_lines :: "re \<Rightarrow> nat \<Rightarrow> pystr list \<Rightarrow> pystr option" where
  \<comment> \<open>the inner loop over the lines, for one pattern\<close>
  "match_lines r g [] = None"
| "match_lines r g (line # lines) =
     (case re_search r None line of
        Some m \<Rightarrow> if g > 0 then Some (strip (group1 m)) else Some (strip line)
      | None \<Rightarrow> match_lines r g lines)"

fun match_patterns :: "(re \<times> nat) list \<Rightarrow> pystr list \<Rightarrow> pystr option" where
  \<comment> \<open>the outer loop over the patterns\<close>
  "match_patterns [] lines = None"
| "match_patterns (pg # ps) lines =
     (case match_lines (fst pg) (snd pg) lines of
        Some r \<Rightarrow> Some r
      | None \<Rightarrow> match_patterns ps lines)"

fun first_long_line :: "pystr list \<Rightarrow> pystr option" where
  "first_long_line [] = None"
| "first_long_line (line # lines) =
     (let l = strip line in
      if l \<noteq> [] \<and> length l > 5 then Some (take 200 l) else first_long_line lines)"

definition extract_error_summary :: "event \<Rightarrow> pystr" where
  "extract_error_summary ev =
     (let output = (if stderr ev \<noteq> [] then stderr ev else stdout ev) in
      if output = [] then asc ''Exit code '' @ str_int (exit_code ev)
      else let lines = split_on NL (strip output) in
        (case match_patterns priority_patterns lines of
           Some r \<Rightarrow> r
         | None \<Rightarrow>
             (case first_long_line lines of
                Some r \<Rightarrow> r
              | None \<Rightarrow> asc ''Exit code '' @ str_int (exit_code ev))))"

definition path_char :: "nat \<Rightarrow> bool" where
  \<comment> \<open>\<open>[a-zA-Z0-9_\-./]\<close>\<close>
  "path_char c \<longleftrightarrow> is_alpha c \<or> is_digit c \<or> c = 95 \<or> c = 45 \<or> c = 46 \<or> c = 47"

definition ext :: re where
  \<comment> \<open>\<open>\.[a-zA-Z]{1,10}\<close>\<close>
  "ext = Seq [Chr 46, Sym is_alpha, UpTo 9 (Sym is_alpha)]"

definition file_patterns :: "re list" where
  "file_patterns =
     [Seq [Grp (Seq [Plus (Sym path_char), ext]), Opt (Seq [Chr 58, Plus (Sym is_digit)])],
      Seq [Chr 34, Grp (Seq [Plus (Sym (\<lambda>c. c \<noteq> 34)), ext]), Chr 34],
      Seq [Chr 39, Grp (Seq [Plus (Sym (\<lambda>c. c \<noteq> 39)), ext]), Chr 39]]"

definition keep_match :: "pystr \<Rightarrow> bool" where
  \<comment> \<open>\<open>not match.startswith('http') and '/' in match or '.' in match\<close>: Python reads
      \<open>and\<close> before \<open>or\<close>\<close>
  "keep_match m \<longleftrightarrow>
     (\<not> prefix (asc ''http'') m \<and> contains (asc ''/'') m) \<or> contains (asc ''.'') m"

fun unique :: "pystr set \<Rightarrow> pystr list \<Rightarrow> pystr list" where
  \<comment> \<open>the loop that drops what was seen before\<close>
  "unique seen [] = []"
| "unique seen (f # fs) = (if f \<notin> seen then f # unique (insert f seen) fs else unique seen fs)"

definition extract_file_context :: "event \<Rightarrow> pystr list" where
  "extract_file_context ev =
     (let combined = command ev @ [NL] @ stderr ev @ [NL] @ stdout ev;
          files = concat (map (\<lambda>pattern.
                    filter (\<lambda>m. length m < 200) (filter keep_match (re_findall pattern None combined)))
                  file_patterns)
      in take 10 (unique {} files))"

subsection \<open>Outcomes used below\<close>

definition scenario_B :: "pystr \<Rightarrow> int \<Rightarrow> pystr \<Rightarrow> pystr \<Rightarrow> event" where
  \<comment> \<open>\<open>go test ./...\<close> ending with exit code 1 and a Go panic on stderr; the fields the
      scenario leaves open are arguments\<close>
  "scenario_B out dur dir stamp =
     \<lparr>command = asc ''go test ./...'', stdout = out,
      stderr = asc ''panic: index out of range [3] with length 2'',
      exit_code = 1, duration_ms = dur, working_dir = dir, timestamp = stamp\<rparr>"

definition failed_ls :: event where
  \<comment> \<open>a command of the ignore list that fails, with words of success in its output\<close>
  "failed_ls =
     \<lparr>command = asc ''ls /nowhere'', stdout = asc ''all tests passed'', stderr = [],
      exit_code = 2, duration_ms = 3, working_dir = asc ''/tmp'',
      timestamp = asc ''2026-01-01 10:00:00''\<rparr>"

definition quoted_url :: event where
  \<comment> \<open>the command \<open>wget "http://x.sh"\<close> (34 is the double quote), no output\<close>
  "quoted_url =
     \<lparr>command = asc ''wget '' @ [34] @ asc ''http://x.sh'' @ [34], stdout = [], stderr = [],
      exit_code = 0, duration_ms = 3, working_dir = asc ''/tmp'',
      timestamp = asc ''2026-01-01 10:00:00''\<rparr>"

section \<open>The handoff document and its updater\<close>

text \<open>
  The updater owns one file. Its state is the content of that file, or \<open>None\<close> while
  the file does not exist. \<open>datetime.now()\<close> is read from outside: a reading is the
  pair of texts that \<open>strftime("%Y-%m-%d")\<close> and \<open>strftime("%Y-%m-%d %H:%M UTC")\<close> give
  for it. Failures of the file system itself are not modelled.
\<close>

type_synonym handoff = "pystr option"

type_synonym clock = "pystr \<times> pystr"

datatype py_error = IndexError | TypeError

definition SECTIONS :: "pystr \<rightharpoonup> pystr" where
  "SECTIONS = map_of
     [(asc ''error'', asc ''## LOST CONTEXT INSURANCE / Debugging History''),
      (asc ''success'', asc ''## COMPLETED THIS SESSION''),
      (asc ''decision'', asc ''## LOST CONTEXT INSURANCE / Decision Log''),
      (asc ''heartbeat'', asc ''## SESSION METADATA'')]"

definition unlines :: "pystr list \<Rightarrow> pystr" where
  \<comment> \<open>the lines of a text literal, each ended by its newline\<close>
  "unlines ls = concat (map (\<lambda>l. l @ [NL]) ls)"

definition create_template :: "clock \<Rightarrow> pystr" where
  "create_template now = unlines
     [asc ''# Project Handoff Document'',
      [],
      asc ''**Created:** '' @ fst now,
      asc ''**Updated:** '' @ snd now,
      asc ''**Status:** Active'',
      [],
      asc ''---'',
      [],
      asc ''## SESSION METADATA'',
      [],
      asc ''*Auto-populated by Terminal Shadow*'',
      [],
      asc ''---'',
      [],
      asc ''## COMPLETED THIS SESSION'',
      [],
      asc ''*Significant completions logged here*'',
      [],
      asc ''---'',
      [],
      asc ''## LOST CONTEXT INSURANCE / Debugging History'',
      [],
      asc ''*Errors and resolutions logged here*'',
      [],
      asc ''---'',
      [],
      asc ''## LOST CONTEXT INSURANCE / Decision Log'',
      [],
      asc ''*Key decisions and rationale logged here*'',
      [],
      asc ''---'',
      [],
      asc ''## PREVIOUSLY COMPLETED'',
      [],
      asc ''*Historical completions*'',
      [],
      asc ''---'',
      [],
      asc ''*This document is maintained by Terminal Shadow for context continuity.*'']"

definition ensure_file_exists :: "clock \<Rightarrow> handoff \<Rightarrow> pystr" where
  \<comment> \<open>the content of the file once it exists: the template if it had to be created\<close>
  "ensure_file_exists now fs = (case fs of None \<Rightarrow> create_template now | Some c \<Rightarrow> c)"

definition files_block :: "string \<Rightarrow> pystr list option \<Rightarrow> pystr" where
  \<comment> \<open>\<open>if files:\<close> the heading and one line for each of \<open>files[:5]\<close>\<close>
  "files_block heading files =
     (case files of
        None \<Rightarrow> []
      | Some fs \<Rightarrow>
          if fs = [] then []
          else unlines [[], asc heading] @
               concat (map (\<lambda>f. asc ''- `'' @ f @ asc ''`'' @ [NL]) (take 5 fs)))"

definition format_error_entry :: "event \<Rightarrow> pystr option \<Rightarrow> pystr list option \<Rightarrow> pystr" where
  "format_error_entry ev error_summary files =
     (let stderr_truncated = truncate (stderr ev) 800;
          stdout_truncated = truncate (stdout ev) 400;
          summary = (case error_summary of
                       None \<Rightarrow> asc ''Exit code '' @ str_int (exit_code ev)
                     | Some e \<Rightarrow> if e = [] then asc ''Exit code '' @ str_int (exit_code ev) else e)
      in unlines
           [[],
            asc ''### '' @ [WARN_SIGN] @ asc '' Error: '' @ take 100 summary,
            [],
            asc ''**Timestamp:** '' @ timestamp ev,
            [],
            asc ''**Command:**'',
            asc ''```bash'',
            command ev,
            asc ''```'',
            [],
            asc ''**Working Directory:** `'' @ working_dir ev @ asc ''`'',
            [],
            asc ''**Exit Code:** '' @ str_int (exit_code ev),
            [],
            asc ''**Stderr:**'',
            asc ''```'',
            stderr_truncated,
            asc ''```''] @
         (if stdout ev \<noteq> [] \<and> length (strip (stdout ev)) > 0
          then unlines [[], asc ''**Stdout (relevant):**'', asc ''```'', stdout_truncated, asc ''```'']
          else []) @
         files_block ''**Files Involved:**'' files @
         unlines
           [[],
            asc ''**Hypothesis:** [To be filled after investigation]'',
            [],
            asc ''**Resolution:** [To be filled after fix]'',
            [],
            asc ''---''])"

definition format_success_entry :: "event \<Rightarrow> pystr list option \<Rightarrow> py_error + pystr" where
  \<comment> \<open>\<open>event.command.split()[0]\<close> raises for a command of whitespace only\<close>
  "format_success_entry ev files =
     (if command ev \<noteq> [] \<and> split_ws (command ev) = [] then Inl IndexError
      else
        let cmd_short = (if command ev \<noteq> [] then hd (split_ws (command ev)) else asc ''Command'');
            title = (if length (command ev) > 50 then cmd_short @ asc '' (long command)''
                     else take 80 (command ev));
            output_truncated = truncate (stdout ev) 500
        in Inr (unlines
             [[],
              asc ''### '' @ [CHECK_MARK] @ asc '' '' @ title,
              [],
              asc ''**Timestamp:** '' @ timestamp ev,
              [],
              asc ''**Duration:** '' @ str_int (duration_ms ev) @ asc ''ms'',
              [],
              asc ''**Command:**'',
              asc ''```bash'',
              take 200 (command ev),
              asc ''```''] @
           (if strip output_truncated \<noteq> []
            then unlines [[], asc ''**Output:**'', asc ''```'', output_truncated, asc ''```'']
            else []) @
           files_block ''**Files Affected:**'' files @
           unlines [[], asc ''---'']))"

definition format_decision_entry :: "event \<Rightarrow> pystr" where
  "format_decision_entry ev = unlines
     [[],
      asc ''### Decision: '' @ take 80 (command ev),
      [],
      asc ''**Timestamp:** '' @ timestamp ev,
      [],
      asc ''**Command:**'',
      asc ''```bash'',
      command ev,
      asc ''```'',
      [],
      asc ''**Context:** [Why this command was run]'',
      [],
      asc ''**Outcome:** '' @ str_int (exit_code ev) @ asc '' (0 = success)'',
      [],
      asc ''**Rationale:** [To be filled - why this approach was chosen]'',
      [],
      asc ''---'']"

definition find_marker_line :: "pystr \<Rightarrow> pystr list \<Rightarrow> nat option" where
  \<comment> \<open>the first loop: the index after the first line that holds the marker\<close>
  "find_marker_line marker lines =
     map_option (\<lambda>i. i + 1)
       (find (\<lambda>i. contains marker (lines ! i)) [0 ..< length lines])"

definition find_next_section :: "pystr list \<Rightarrow> nat \<Rightarrow> nat" where
  \<comment> \<open>the second loop, with its \<open>else\<close> branch: the first line from \<open>insert_idx\<close> on that
      starts a section and lies beyond \<open>insert_idx\<close>, or the end of the document\<close>
  "find_next_section lines insert_idx =
     (case find (\<lambda>i. prefix (asc ''## '') (lines ! i) \<and> i > insert_idx)
             [insert_idx ..< length lines] of
        Some i \<Rightarrow> i
      | None \<Rightarrow> length lines)"

definition insert_entry :: "clock \<Rightarrow> pystr \<Rightarrow> pystr \<Rightarrow> handoff \<Rightarrow> handoff" where
  "insert_entry now section_type entry fs =
     (let content = ensure_file_exists now fs;
          fallback = Some (content @ [NL] @ entry)
      in case SECTIONS section_type of
           None \<Rightarrow> fallback
         | Some section_marker \<Rightarrow>
             if section_marker \<noteq> [] \<and> contains section_marker content then
               let lines = split_on NL content in
               (case find_marker_line section_marker lines of
                  None \<Rightarrow> fallback
                | Some insert_idx \<Rightarrow>
                    let idx = find_next_section lines insert_idx
                    in Some (join [NL] (take idx lines @ [entry] @ drop idx lines)))
             else fallback)"

definition updated_re :: re where
  \<comment> \<open>\<open>\*\*Updated:\*\* [^\n]+\<close>\<close>
  "updated_re = Seq [Txt ''**Updated:** '', Plus (Sym (\<lambda>c. c \<noteq> NL))]"

definition update_timestamp :: "clock \<Rightarrow> handoff \<Rightarrow> handoff" where
  "update_timestamp now fs =
     (case fs of
        None \<Rightarrow> None
      | Some content \<Rightarrow> Some (re_sub updated_re (asc ''**Updated:** '' @ snd now) None content))"

definition append_event ::
  "clock \<Rightarrow> clock \<Rightarrow> event \<Rightarrow> event_type \<Rightarrow> pystr option \<Rightarrow> pystr list option \<Rightarrow>
     handoff \<Rightarrow> py_error + handoff" where
  \<comment> \<open>\<open>now\<close> is the clock when the entry is inserted, \<open>now'\<close> when the timestamp is
      rewritten\<close>
  "append_event now now' ev et error_summary files fs =
     (case et of
        ERROR \<Rightarrow>
          Inr (update_timestamp now'
                 (insert_entry now (asc ''error'') (format_error_entry ev error_summary files) fs))
      | SUCCESS \<Rightarrow>
          (case format_success_entry ev files of
             Inl e \<Rightarrow> Inl e
           | Inr entry \<Rightarrow> Inr (update_timestamp now' (insert_entry now (asc ''success'') entry fs)))
      | DECISION \<Rightarrow>
          Inr (update_timestamp now'
                 (insert_entry now (asc ''decision'') (format_decision_entry ev) fs))
      | NOISE \<Rightarrow> Inr fs)"






section \<open>The heartbeat service\<close>

definition init_service ::
  "int \<Rightarrow> ('w \<Rightarrow> (raised + pydict) \<times> 'w) option \<Rightarrow>
     (pydict \<Rightarrow> 'w \<Rightarrow> raised option \<times> 'w) option \<Rightarrow> datetime \<Rightarrow> 'w heartbeat_service" where
  \<comment> \<open>\<open>__init__\<close>, at the clock reading \<open>now\<close>\<close>
  "init_service interval_minutes gs oh now =
     \<lparr>interval = interval_minutes * 60, get_stats = gs, on_heartbeat = oh,
      running = False, session_start = now, heartbeat_count = 0\<rparr>"

definition start :: "datetime \<Rightarrow> 'w heartbeat_service \<Rightarrow> 'w heartbeat_service" where
  "start now svc = (if running svc then svc else svc\<lparr>running := True, session_start := now\<rparr>)"

definition stop :: "'w heartbeat_service \<Rightarrow> 'w heartbeat_service" where
  "stop svc = svc\<lparr>running := False\<rparr>"

definition whole_seconds :: "int \<Rightarrow> int" where
  \<comment> \<open>\<open>int(delta.total_seconds())\<close> of a difference in microseconds: \<open>int\<close> rounds towards
      zero\<close>
  "whole_seconds d = (if 0 \<le> d then d div 1000000 else - ((- d) div 1000000))"

definition get_duration :: "datetime \<Rightarrow> 'w heartbeat_service \<Rightarrow> pystr" where
  "get_duration now svc =
     (let total = whole_seconds (micros now - micros (session_start svc));
          hours = total div 3600; remainder = total mod 3600;
          minutes = remainder div 60; seconds = remainder mod 60
      in if hours > 0 then str_int hours @ asc ''h '' @ str_int minutes @ asc ''m''
         else if minutes > 0 then str_int minutes @ asc ''m '' @ str_int seconds @ asc ''s''
         else str_int seconds @ asc ''s'')"

definition base_stats :: "datetime \<Rightarrow> datetime \<Rightarrow> 'w heartbeat_service \<Rightarrow> pydict" where
  \<comment> \<open>the snapshot before the provider is asked, for a service whose count is already
      incremented; \<open>now\<close> and \<open>now'\<close> are the two readings of the clock\<close>
  "base_stats now now' svc =
     [asc ''timestamp'' \<mapsto> PStr (iso now),
      asc ''session_start'' \<mapsto> PStr (iso (session_start svc)),
      asc ''duration'' \<mapsto> PStr (get_duration now' svc),
      asc ''heartbeat_count'' \<mapsto> PInt (heartbeat_count svc)]"

definition emit_heartbeat ::
  "datetime \<Rightarrow> datetime \<Rightarrow> 'w heartbeat_service \<Rightarrow> 'w \<Rightarrow>
     raised option \<times> 'w heartbeat_service \<times> 'w" where
  \<comment> \<open>the first component is what the call lets through to its caller, if anything\<close>
  "emit_heartbeat now now' svc0 w0 =
     (let svc = svc0\<lparr>heartbeat_count := heartbeat_count svc0 + 1\<rparr>;
          stats = base_stats now now' svc;
          asked = (case get_stats svc of
                     None \<Rightarrow> (None, stats, w0)
                   | Some provider \<Rightarrow>
                       (case provider w0 of
                          (Inr additional_stats, w1) \<Rightarrow> (None, stats ++ additional_stats, w1)
                        | (Inl (Exception_instance e), w1) \<Rightarrow> (None, stats, w1)
                        | (Inl (Base_exception e), w1) \<Rightarrow> (Some (Base_exception e), stats, w1)))
      in case asked of
           (Some e, stats', w1) \<Rightarrow> (Some e, svc, w1)
         | (None, stats', w1) \<Rightarrow>
             (case on_heartbeat svc of
                None \<Rightarrow> (None, svc, w1)
              | Some sink \<Rightarrow>
                  (case sink stats' w1 of
                     (None, w2) \<Rightarrow> (None, svc, w2)
                   | (Some (Exception_instance e), w2) \<Rightarrow> (None, svc, w2)
                   | (Some (Base_exception e), w2) \<Rightarrow> (Some (Base_exception e), svc, w2))))"

definition emit_now ::
  "datetime \<Rightarrow> datetime \<Rightarrow> 'w heartbeat_service \<Rightarrow> 'w \<Rightarrow>
     raised option \<times> 'w heartbeat_service \<times> 'w" where
  "emit_now now now' svc w = emit_heartbeat now now' svc w"

fun run_loop ::
  "(datetime \<times> datetime) list \<Rightarrow> 'w heartbeat_service \<Rightarrow> 'w \<Rightarrow>
     raised option \<times> 'w heartbeat_service \<times> 'w" where
  \<comment> \<open>the loop of the timer thread over the ticks that come due while the running flag
      is set, each with its clock readings; what a tick lets through ends the loop\<close>
  "run_loop [] svc w = (None, svc, w)"
| "run_loop (t # ts) svc w =
     (case emit_heartbeat (fst t) (snd t) svc w of
        (None, svc', w') \<Rightarrow> run_loop ts svc' w'
      | (Some e, svc', w') \<Rightarrow> (Some e, svc', w'))"

fun caught :: "raised \<Rightarrow> bool" where
  \<comment> \<open>\<open>isinstance(e, Exception)\<close>: what \<open>except Exception\<close> catches\<close>
  "caught (Exception_instance e) = True"
| "caught (Base_exception e) = False"

definition provider_tame :: "raised + pydict \<Rightarrow> bool" where
  \<comment> \<open>the provider returned, or raised an instance of \<open>Exception\<close>\<close>
  "provider_tame r = (case r of Inl e \<Rightarrow> caught e | Inr d \<Rightarrow> True)"

definition sink_tame :: "raised option \<Rightarrow> bool" where
  \<comment> \<open>the sink returned, or raised an instance of \<open>Exception\<close>\<close>
  "sink_tame r = (case r of None \<Rightarrow> True | Some e \<Rightarrow> caught e)"

definition merged :: "pydict \<Rightarrow> raised + pydict \<Rightarrow> pydict" where
  \<comment> \<open>the snapshot after the provider: updated if it returned, as it was if it raised\<close>
  "merged stats r = (case r of Inl e \<Rightarrow> stats | Inr additional_stats \<Rightarrow> stats ++ additional_stats)"

subsection \<open>A service whose callbacks both fail\<close>

definition t0 :: datetime where
  "t0 = \<lparr>iso = asc ''2026-01-01T09:00:00'', micros = 0\<rparr>"

definition t1 :: datetime where
  "t1 = \<lparr>iso = asc ''2026-01-01T09:12:05'', micros = 725000000\<rparr>"

definition failing_provider :: "pydict list \<Rightarrow> (raised + pydict) \<times> pydict list" where
  "failing_provider w = (Inl (Exception_instance (asc ''RuntimeError'')), w)"

definition failing_sink :: "pydict \<Rightarrow> pydict list \<Rightarrow> raised option \<times> pydict list" where
  \<comment> \<open>notes the snapshot it was given in the world, then raises\<close>
  "failing_sink stats w = (Some (Exception_instance (asc ''OSError'')), w @ [stats])"

definition idle_service :: "pydict list heartbeat_service" where
  \<comment> \<open>created and never started\<close>
  "idle_service = init_service 5 (Some failing_provider) (Some failing_sink) t0"

subsection \<open>Reading the header's timestamp\<close>



subsection \<open>A small handoff document and two error entries\<close>

definition now0 :: clock where
  "now0 = (asc ''2026-01-02'', asc ''2026-01-02 10:30 UTC'')"

definition small_doc :: pystr where
  "small_doc = join [NL]
     [asc ''**Updated:** 2026-01-01 09:00 UTC'',
      asc ''## SESSION METADATA'',
      asc ''started'',
      asc ''## COMPLETED THIS SESSION'',
      asc ''old entry'',
      asc ''## LOST CONTEXT INSURANCE / Debugging History'',
      asc ''notes'',
      asc ''## PREVIOUSLY COMPLETED'',
      asc ''history'']"








section \<open>Facts about stripping\<close>

lemma lstrip_hd: "lstrip s \<noteq> [] \<Longrightarrow> \<not> is_space (hd (lstrip s))"
  unfolding lstrip_def by (rule hd_dropWhile)

lemma rstrip_last: "rstrip s \<noteq> [] \<Longrightarrow> \<not> is_space (last (rstrip s))"
proof -
  assume a: "rstrip s \<noteq> []"
  then have ne: "dropWhile is_space (rev s) \<noteq> []"
    by (simp add: rstrip_def)
  have "last (rstrip s) = hd (dropWhile is_space (rev s))"
    using ne by (simp add: rstrip_def last_rev)
  then show ?thesis
    using hd_dropWhile [OF ne] by simp
qed

lemma rstrip_keeps_hd:
  assumes "s \<noteq> []" and "\<not> is_space (hd s)"
  shows "rstrip s \<noteq> [] \<and> hd (rstrip s) = hd s"
proof -
  from assms obtain c cs where s: "s = c # cs" and c: "\<not> is_space c"
    by (cases s) auto
  have "dropWhile is_space (rev cs @ [c]) = dropWhile is_space (rev cs) @ [c]"
    using c by (induction "rev cs" arbitrary: cs) (auto simp: dropWhile_append)
  then have "rstrip s = c # rev (dropWhile is_space (rev cs))"
    by (simp add: rstrip_def s)
  then show ?thesis
    by (simp add: s)
qed

lemma strip_ends:
  assumes "strip s \<noteq> []"
  shows "\<not> is_space (hd (strip s))" and "\<not> is_space (last (strip s))"
proof -
  from assms have l: "lstrip s \<noteq> []"
    by (auto simp: strip_def rstrip_def)
  from rstrip_keeps_hd [OF l lstrip_hd [OF l]]
  show "\<not> is_space (hd (strip s))"
    using lstrip_hd [OF l] by (simp add: strip_def)
  show "\<not> is_space (last (strip s))"
    using assms rstrip_last unfolding strip_def by blast
qed

lemma strip_fixed:
  assumes "s \<noteq> []" and "\<not> is_space (hd s)" and "\<not> is_space (last s)"
  shows "strip s = s"
proof -
  have l: "lstrip s = s"
    using assms(1,2) by (cases s) (auto simp: lstrip_def)
  have "rev s \<noteq> []" and "\<not> is_space (hd (rev s))"
    using assms(1,3) by (simp_all add: hd_rev)
  then have "dropWhile is_space (rev s) = rev s"
    by (cases "rev s") auto
  then show ?thesis
    by (simp add: strip_def l rstrip_def)
qed

lemma strip_strip: "strip (strip s) = strip s"
proof (cases "strip s = []")
  case True
  have "strip [] = []"
    by (simp add: strip_def lstrip_def rstrip_def)
  with True show ?thesis by simp
next
  case False
  from strip_fixed [OF False strip_ends [OF False]] show ?thesis .
qed

section \<open>Truncating twice\<close>

lemma truncate_short:
  "text \<noteq> [] \<Longrightarrow> int (length (strip text)) \<le> L \<Longrightarrow> truncate text L = strip text"
  by (simp add: truncate_def)

lemma truncate_long:
  "text \<noteq> [] \<Longrightarrow> int (length (strip text)) > L \<Longrightarrow>
     truncate text L = slice_to L (strip text) @
       [NL] @ asc ''... (truncated, '' @ str_nat (length (strip text)) @ asc '' total chars)''"
  by (simp add: truncate_def Let_def)

text \<open>
  C7. Truncation keeps its visible prefix: for every text \<open>s\<close> longer than the limit
  \<open>L\<close>, the first \<open>L\<close> characters of \<open>_truncate(_truncate(s, L), L)\<close> are the first
  \<open>L\<close> characters of \<open>_truncate(s, L)\<close>.
\<close>

theorem truncate_prefix_idempotent:
  assumes "length s > L"
  shows "take L (truncate (truncate s (int L)) (int L)) = take L (truncate s (int L))"
proof (cases "length (strip s) \<le> L")
  case True
  from assms have ne: "s \<noteq> []" by auto
  have t1: "truncate s (int L) = strip s"
    using ne True by (simp add: truncate_short)
  show ?thesis
  proof (cases "strip s = []")
    case True
    then show ?thesis by (simp add: t1 truncate_def)
  next
    case False
    then have "truncate (strip s) (int L) = strip (strip s)"
      using True by (simp add: truncate_short strip_strip)
    then show ?thesis by (simp add: t1 strip_strip)
  qed
next
  case False
  then have long: "length (strip s) > L" by simp
  from assms have ne: "s \<noteq> []" by auto
  define t where "t = strip s"
  define m where "m = [NL] @ asc ''... (truncated, '' @ str_nat (length t) @ asc '' total chars)''"
  have t1: "truncate s (int L) = take L t @ m"
    using long ne by (simp add: truncate_long slice_to_def t_def m_def)
  show ?thesis
  proof (cases "L = 0")
    case True
    then show ?thesis by simp
  next
    case False
    have tne: "t \<noteq> []" using long by (auto simp: t_def)
    have hd1: "hd (take L t @ m) = hd t"
      using False tne by (cases t) (auto simp: take_Suc_conv_app_nth hd_append)
    have last1: "last (take L t @ m) = 41"
      by (simp add: m_def asc_def)
    have ne1: "take L t @ m \<noteq> []"
      by (simp add: m_def)
    have "\<not> is_space (hd t)"
      using strip_ends(1) tne unfolding t_def by blast
    moreover have "\<not> is_space 41"
      by (simp add: is_space_def)
    ultimately have fixed: "strip (take L t @ m) = take L t @ m"
      using strip_fixed [OF ne1] hd1 last1 by simp
    have "length (take L t @ m) > L"
      using long by (simp add: t_def m_def)
    then have len: "int (length (strip (take L t @ m))) > int L"
      by (simp only: fixed)
    have "truncate (take L t @ m) (int L) =
            take L (take L t @ m) @ [NL] @ asc ''... (truncated, '' @
              str_nat (length (take L t @ m)) @ asc '' total chars)''"
      using truncate_long [OF ne1 len] by (simp add: fixed slice_to_def)
    then show ?thesis
      using long by (simp add: t1 t_def)
  qed
qed

theorem truncate_prefix_idempotent_witness:
  "length (asc ''abcdef'') > 3 \<and>
   truncate (asc ''abcdef'') 3 = asc ''abc'' @ [NL] @ asc ''... (truncated, 6 total chars)'' \<and>
   take 3 (truncate (truncate (asc ''abcdef'') (int 3)) (int 3)) = asc ''abc''"
proof -
  have len: "length (asc ''abcdef'') > 3"
    by (simp add: asc_def)
  have t: "truncate (asc ''abcdef'') 3 = asc ''abc'' @ [NL] @ asc ''... (truncated, 6 total chars)''"
    by code_simp
  have "take 3 (truncate (asc ''abcdef'') (int 3)) = asc ''abc''"
    by code_simp
  with truncate_prefix_idempotent [OF len] len t show ?thesis
    by simp
qed

section \<open>The classifier\<close>

text \<open>
  C6. Every outcome whose exit code is not zero is classified \<open>Error\<close>, whatever its
  command text and its output are.
\<close>

theorem classify_nonzero_exit:
  "exit_code ev \<noteq> 0 \<Longrightarrow> classify ev = ERROR"
  by (simp add: classify_def)

theorem classify_nonzero_exit_witness:
  "exit_code failed_ls \<noteq> 0 \<and> classify failed_ls = ERROR"
proof -
  have "exit_code failed_ls \<noteq> 0"
    by (simp add: failed_ls_def)
  with classify_nonzero_exit [of failed_ls] show ?thesis
    by simp
qed

lemma panic_line_summary:
  "match_patterns priority_patterns
     (split_on NL (strip (asc ''panic: index out of range [3] with length 2''))) =
   Some (asc ''index out of range [3] with length 2'')"
  by code_simp

text \<open>
  C5. Scenario B: the outcome of \<open>go test ./...\<close> with exit code 1 and the stderr text
  \<open>panic: index out of range [3] with length 2\<close> is classified \<open>Error\<close>, and its error
  summary is exactly \<open>index out of range [3] with length 2\<close>.
\<close>

theorem scenario_B_error_summary:
  "classify (scenario_B out d dir stamp) = ERROR \<and>
   extract_error_summary (scenario_B out d dir stamp) =
     asc ''index out of range [3] with length 2''"
proof -
  have ne: "asc ''panic: index out of range [3] with length 2'' \<noteq> []"
    by (simp add: asc_def)
  have "classify (scenario_B out d dir stamp) = ERROR"
    by (simp add: classify_def scenario_B_def)
  moreover have "extract_error_summary (scenario_B out d dir stamp) =
      asc ''index out of range [3] with length 2''"
    using ne by (simp add: extract_error_summary_def scenario_B_def panic_line_summary)
  ultimately show ?thesis by simp
qed

section \<open>The file context\<close>

lemma unique_distinct: "distinct (unique seen fs) \<and> set (unique seen fs) \<inter> seen = {}"
  by (induction fs arbitrary: seen) auto

lemma unique_subset: "set (unique seen fs) \<subseteq> set fs"
  by (induction fs arbitrary: seen) auto

lemma extract_file_context_bounds:
  "length (extract_file_context ev) \<le> 10 \<and> distinct (extract_file_context ev) \<and>
   (\<forall>t \<in> set (extract_file_context ev). length t < 200)"
proof -
  define files where "files = concat (map (\<lambda>pattern.
      filter (\<lambda>m. length m < 200)
        (filter keep_match (re_findall pattern None
           (command ev @ [NL] @ stderr ev @ [NL] @ stdout ev)))) file_patterns)"
  have e: "extract_file_context ev = take 10 (unique {} files)"
    by (simp add: extract_file_context_def files_def Let_def)
  have "\<forall>t \<in> set files. length t < 200"
    by (auto simp: files_def)
  then have "\<forall>t \<in> set (take 10 (unique {} files)). length t < 200"
    using unique_subset [of "{}" files] by (meson in_set_takeD subsetD)
  moreover have "distinct (take 10 (unique {} files))"
    using unique_distinct [of "{}" files] by simp
  ultimately show ?thesis
    by (simp add: e)
qed

text \<open>
  C4. The list \<open>extract_file_context\<close> returns has at most 10 tokens, no token twice and
  only tokens shorter than 200 characters (\<open>extract_file_context_bounds\<close>), but it can
  hold a token that begins with \<open>http\<close>: every match holds a dot, and a match with a
  dot is kept whatever it begins with. For the command \<open>wget "http://x.sh"\<close> the list is
  \<open>//x.sh\<close>, \<open>http://x.sh\<close>.
\<close>

theorem extract_file_context_keeps_http:
  "extract_file_context quoted_url = [asc ''//x.sh'', asc ''http://x.sh''] \<and>
   prefix (asc ''http'') (extract_file_context quoted_url ! 1)"
  by code_simp

section \<open>Noise is not written\<close>

text \<open>
  C9. \<open>append_event\<close> with the event type \<open>Noise\<close> writes nothing: it returns at
  once, and the handoff file is as it was (its content, its \<open>Updated\<close> field, and
  also its absence, when there was no file).
\<close>

theorem append_event_noise:
  "append_event now now' ev NOISE error_summary files fs = Inr fs"
  by (simp add: append_event_def)

section \<open>One heartbeat tick\<close>

lemma emit_heartbeat_tame:
  assumes "get_stats svc = Some provider" and "on_heartbeat svc = Some sink"
    and "provider w = (r, w1)" and "provider_tame r"
    and "sink (merged (base_stats now now' (svc\<lparr>heartbeat_count := heartbeat_count svc + 1\<rparr>)) r) w1
           = (r', w2)"
    and "sink_tame r'"
  shows "emit_heartbeat now now' svc w =
           (None, svc\<lparr>heartbeat_count := heartbeat_count svc + 1\<rparr>, w2)"
proof (cases r)
  case (Inl e)
  with assms(4) obtain x where e: "e = Exception_instance x"
    by (cases e) (auto simp: provider_tame_def)
  show ?thesis
  proof (cases r')
    case None
    with assms Inl e show ?thesis
      by (simp add: emit_heartbeat_def merged_def Let_def)
  next
    case (Some e')
    with assms(6) obtain y where "e' = Exception_instance y"
      by (cases e') (auto simp: sink_tame_def)
    with assms Inl e Some show ?thesis
      by (simp add: emit_heartbeat_def merged_def Let_def)
  qed
next
  case (Inr d)
  show ?thesis
  proof (cases r')
    case None
    with assms Inr show ?thesis
      by (simp add: emit_heartbeat_def merged_def Let_def)
  next
    case (Some e')
    with assms(6) obtain y where "e' = Exception_instance y"
      by (cases e') (auto simp: sink_tame_def)
    with assms Inr Some show ?thesis
      by (simp add: emit_heartbeat_def merged_def Let_def)
  qed
qed

lemma emit_heartbeat_count:
  "heartbeat_count (fst (snd (emit_heartbeat now now' svc w))) = heartbeat_count svc + 1"
  by (auto simp: emit_heartbeat_def Let_def split: option.splits sum.splits raised.splits prod.splits)

lemma emit_heartbeat_lets_through:
  assumes "get_stats svc = Some provider" and "provider w = (Inl (Base_exception e), w1)"
  shows "emit_heartbeat now now' svc w =
           (Some (Base_exception e), svc\<lparr>heartbeat_count := heartbeat_count svc + 1\<rparr>, w1)"
  using assms by (simp add: emit_heartbeat_def Let_def)

subsection \<open>The timer loop\<close>

text \<open>
  With callbacks that raise nothing but instances of \<open>Exception\<close>, no tick ends the
  loop: every tick that comes due is carried out.
\<close>

lemma emit_heartbeat_service:
  "fst (snd (emit_heartbeat now now' svc w)) = svc\<lparr>heartbeat_count := heartbeat_count svc + 1\<rparr>"
  by (auto simp: emit_heartbeat_def Let_def
           split: option.splits sum.splits raised.splits prod.splits)

lemma emit_heartbeat_returns:
  assumes "\<And>provider w. get_stats svc = Some provider \<Longrightarrow> provider_tame (fst (provider w))"
    and "\<And>sink stats w. on_heartbeat svc = Some sink \<Longrightarrow> sink_tame (fst (sink stats w))"
  shows "fst (emit_heartbeat now now' svc w) = None"
proof (cases "get_stats svc")
  case None
  note gs = None
  show ?thesis
  proof (cases "on_heartbeat svc")
    case None
    with gs show ?thesis by (simp add: emit_heartbeat_def Let_def)
  next
    case (Some sink)
    from assms(2) [OF Some] show ?thesis
      using gs Some
      by (auto simp: emit_heartbeat_def Let_def sink_tame_def
               split: option.splits raised.splits prod.splits)
         (metis caught.simps(2) fst_conv option.simps(5))
  qed
next
  case (Some provider)
  note gs = Some
  obtain r w1 where p: "provider w = (r, w1)" by (cases "provider w") auto
  have pt: "provider_tame r"
    using assms(1) [OF gs, of w] p by simp
  show ?thesis
  proof (cases "on_heartbeat svc")
    case None
    with gs p pt show ?thesis
      by (cases r)
         (auto simp: emit_heartbeat_def Let_def provider_tame_def split: raised.splits)
  next
    case (Some sink)
    obtain r' w2 where k:
      "sink (merged (base_stats now now' (svc\<lparr>heartbeat_count := heartbeat_count svc + 1\<rparr>)) r) w1
         = (r', w2)"
      by (cases "sink (merged (base_stats now now'
            (svc\<lparr>heartbeat_count := heartbeat_count svc + 1\<rparr>)) r) w1") auto
    have kt: "sink_tame r'"
      using assms(2) [OF Some, of _ w1] k by (metis fst_conv)
    from emit_heartbeat_tame [OF gs Some p pt k kt] show ?thesis by simp
  qed
qed

lemma run_loop_all_ticks:
  assumes "\<And>provider w. get_stats svc = Some provider \<Longrightarrow> provider_tame (fst (provider w))"
    and "\<And>sink stats w. on_heartbeat svc = Some sink \<Longrightarrow> sink_tame (fst (sink stats w))"
  shows "fst (run_loop ts svc w) = None \<and>
         heartbeat_count (fst (snd (run_loop ts svc w))) = heartbeat_count svc + int (length ts)"
  using assms
proof (induction ts arbitrary: svc w)
  case Nil
  then show ?case by simp
next
  case (Cons t ts)
  obtain r svc' w' where e: "emit_heartbeat (fst t) (snd t) svc w = (r, svc', w')"
    by (cases "emit_heartbeat (fst t) (snd t) svc w") auto
  have r: "r = None"
    using emit_heartbeat_returns [of svc "fst t" "snd t" w] Cons.prems e by simp
  have svc': "svc' = svc\<lparr>heartbeat_count := heartbeat_count svc + 1\<rparr>"
    using emit_heartbeat_service [of "fst t" "snd t" svc w] e by simp
  have "fst (run_loop ts svc' w') = None \<and>
        heartbeat_count (fst (snd (run_loop ts svc' w'))) = heartbeat_count svc' + int (length ts)"
    by (rule Cons.IH) (use Cons.prems svc' in auto)
  then show ?case
    by (simp add: e r svc')
qed

text \<open>
  C8. Whatever the stats provider and the sink callback are: when the provider raises an
  exception, the tick goes on with the base snapshot and hands it to the sink; when the
  sink raises an exception, the tick ends there; either way the tick returns normally,
  nothing is passed on to the timer loop, and the heartbeat count is one more than before.
  (An exception is an instance of \<open>Exception\<close>, as \<open>except Exception\<close> reads it.)
\<close>

theorem heartbeat_failures_swallowed:
  assumes "get_stats svc = Some provider" and "on_heartbeat svc = Some sink"
    and "provider w = (r, w1)" and "provider_tame r"
    and "sink (merged (base_stats now now' (svc\<lparr>heartbeat_count := heartbeat_count svc + 1\<rparr>)) r) w1
           = (r', w2)"
    and "sink_tame r'"
  shows "emit_heartbeat now now' svc w =
           (None, svc\<lparr>heartbeat_count := heartbeat_count svc + 1\<rparr>, w2)"
  using assms by (rule emit_heartbeat_tame)

theorem heartbeat_failures_swallowed_witness:
  "get_stats (start t0 idle_service) = Some failing_provider \<and>
   on_heartbeat (start t0 idle_service) = Some failing_sink \<and>
   failing_provider [] = (Inl (Exception_instance (asc ''RuntimeError'')), []) \<and>
   provider_tame (Inl (Exception_instance (asc ''RuntimeError''))) \<and>
   sink_tame (Some (Exception_instance (asc ''OSError''))) \<and>
   emit_heartbeat t1 t1 (start t0 idle_service) [] =
     (None, (start t0 idle_service)\<lparr>heartbeat_count := 1\<rparr>,
      [base_stats t1 t1 ((start t0 idle_service)\<lparr>heartbeat_count := 1\<rparr>)])"
proof -
  let ?svc = "start t0 idle_service"
  have gs: "get_stats ?svc = Some failing_provider"
    and oh: "on_heartbeat ?svc = Some failing_sink"
    and n: "heartbeat_count ?svc = 0"
    by (simp_all add: start_def idle_service_def init_service_def)
  have p: "failing_provider [] = (Inl (Exception_instance (asc ''RuntimeError'')), [])"
    by (simp add: failing_provider_def)
  have pt: "provider_tame (Inl (Exception_instance (asc ''RuntimeError'')))"
    by (simp add: provider_tame_def)
  have k: "failing_sink
             (merged (base_stats t1 t1 (?svc\<lparr>heartbeat_count := heartbeat_count ?svc + 1\<rparr>))
                (Inl (Exception_instance (asc ''RuntimeError'')))) [] =
           (Some (Exception_instance (asc ''OSError'')),
            [base_stats t1 t1 (?svc\<lparr>heartbeat_count := 1\<rparr>)])"
    by (simp add: failing_sink_def merged_def n)
  have kt: "sink_tame (Some (Exception_instance (asc ''OSError'')))"
    by (simp add: sink_tame_def)
  from heartbeat_failures_swallowed [OF gs oh p pt k kt] gs oh p pt kt n show ?thesis
    by simp
qed

lemma base_stats_running:
  "base_stats now now' (svc\<lparr>running := b, heartbeat_count := n\<rparr>) =
   base_stats now now' (svc\<lparr>heartbeat_count := n\<rparr>)"
  by (simp add: base_stats_def get_duration_def)

text \<open>
  C10. \<open>emit_now\<close> does not look at the running flag. Whatever the flag is, and so also
  for a service that was never started or that was stopped, the call adds exactly one to
  the heartbeat count, asks the stats provider and hands the snapshot to the sink; the
  flag stays as it was.
\<close>

theorem emit_now_ignores_running:
  assumes "get_stats svc = Some provider" and "on_heartbeat svc = Some sink"
    and "provider w = (r, w1)" and "provider_tame r"
    and "sink (merged (base_stats now now' (svc\<lparr>heartbeat_count := heartbeat_count svc + 1\<rparr>)) r) w1
           = (r', w2)"
    and "sink_tame r'"
  shows "emit_now now now' (svc\<lparr>running := b\<rparr>) w =
           (None, svc\<lparr>running := b, heartbeat_count := heartbeat_count svc + 1\<rparr>, w2)"
proof -
  let ?svc = "svc\<lparr>running := b\<rparr>"
  have gs: "get_stats ?svc = Some provider" and oh: "on_heartbeat ?svc = Some sink"
    using assms(1,2) by simp_all
  have k: "sink (merged (base_stats now now'
                   (?svc\<lparr>heartbeat_count := heartbeat_count ?svc + 1\<rparr>)) r) w1 = (r', w2)"
    using assms(5) by (simp add: base_stats_running)
  from emit_heartbeat_tame [OF gs oh assms(3,4) k assms(6)] show ?thesis
    by (simp add: emit_now_def)
qed

theorem emit_now_ignores_running_witness:
  "\<not> running idle_service \<and> \<not> running (stop (start t0 idle_service)) \<and>
   get_stats idle_service = Some failing_provider \<and>
   on_heartbeat idle_service = Some failing_sink \<and>
   provider_tame (Inl (Exception_instance (asc ''RuntimeError''))) \<and>
   sink_tame (Some (Exception_instance (asc ''OSError''))) \<and>
   emit_now t1 t1 idle_service [] =
     (None, idle_service\<lparr>heartbeat_count := 1\<rparr>,
      [base_stats t1 t1 (idle_service\<lparr>heartbeat_count := 1\<rparr>)])"
proof -
  have gs: "get_stats idle_service = Some failing_provider"
    and oh: "on_heartbeat idle_service = Some failing_sink"
    and n: "heartbeat_count idle_service = 0"
    and idle: "\<not> running idle_service" "\<not> running (stop (start t0 idle_service))"
    and same: "idle_service\<lparr>running := False\<rparr> = idle_service"
    by (simp_all add: start_def stop_def idle_service_def init_service_def)
  have p: "failing_provider [] = (Inl (Exception_instance (asc ''RuntimeError'')), [])"
    by (simp add: failing_provider_def)
  have pt: "provider_tame (Inl (Exception_instance (asc ''RuntimeError'')))"
    by (simp add: provider_tame_def)
  have k: "failing_sink
             (merged (base_stats t1 t1
                (idle_service\<lparr>heartbeat_count := heartbeat_count idle_service + 1\<rparr>))
                (Inl (Exception_instance (asc ''RuntimeError'')))) [] =
           (Some (Exception_instance (asc ''OSError'')),
            [base_stats t1 t1 (idle_service\<lparr>heartbeat_count := 1\<rparr>)])"
    by (simp add: failing_sink_def merged_def n)
  have kt: "sink_tame (Some (Exception_instance (asc ''OSError'')))"
    by (simp add: sink_tame_def)
  have "emit_now t1 t1 (idle_service\<lparr>running := False\<rparr>) [] =
          (None, idle_service\<lparr>running := False, heartbeat_count := heartbeat_count idle_service + 1\<rparr>,
           [base_stats t1 t1 (idle_service\<lparr>heartbeat_count := 1\<rparr>)])"
    by (rule emit_now_ignores_running [OF gs oh p pt k kt])
  then have "emit_now t1 t1 idle_service [] =
          (None, idle_service\<lparr>heartbeat_count := 1\<rparr>,
           [base_stats t1 t1 (idle_service\<lparr>heartbeat_count := 1\<rparr>)])"
    by (simp add: idle_service_def init_service_def)
  with gs oh pt kt idle show ?thesis
    by simp
qed

section \<open>Lines of a document\<close>

lemma split_on_ne: "split_on c s \<noteq> []"
  by (induction s) (auto split: list.splits)

lemma join_Cons_Cons: "ys \<noteq> [] \<Longrightarrow> join sep (x # ys) = x @ sep @ join sep ys"
  by (cases ys) auto

lemma join_split_on: "join [c] (split_on c s) = s"
proof (induction s)
  case Nil
  then show ?case by simp
next
  case (Cons x xs)
  show ?case
  proof (cases "x = c")
    case True
    then show ?thesis
      using Cons split_on_ne [of c xs] by (simp add: join_Cons_Cons)
  next
    case False
    obtain y ys where s: "split_on c xs = y # ys"
      using split_on_ne [of c xs] by (cases "split_on c xs") auto
    show ?thesis
      using False Cons s by (cases ys) auto
  qed
qed




lemma join_append:
  "xs \<noteq> [] \<Longrightarrow> ys \<noteq> [] \<Longrightarrow> join sep (xs @ ys) = join sep xs @ sep @ join sep ys"
proof (induction xs)
  case Nil
  then show ?case by simp
next
  case (Cons x xs)
  then show ?case
    by (cases "xs = []") (simp_all add: join_Cons_Cons)
qed




lemma prefix_iff_append: "prefix p s \<longleftrightarrow> (\<exists>b. s = p @ b)"
  by (auto simp: prefix_def)

lemma contains_iff: "contains p s \<longleftrightarrow> (\<exists>a b. s = a @ p @ b)"
proof (induction s)
  case Nil
  then show ?case by auto
next
  case (Cons x xs)
  note IH = Cons.IH
  show ?case
  proof
    assume "contains p (x # xs)"
    then consider "prefix p (x # xs)" | "contains p xs" by auto
    then show "\<exists>a b. x # xs = a @ p @ b"
    proof cases
      case 1
      then obtain b where "x # xs = p @ b" by (auto simp: prefix_def)
      then have "x # xs = [] @ p @ b" by simp
      then show ?thesis by blast
    next
      case 2
      then obtain a b where "xs = a @ p @ b" using IH by auto
      then have "x # xs = (x # a) @ p @ b" by simp
      then show ?thesis by blast
    qed
  next
    assume "\<exists>a b. x # xs = a @ p @ b"
    then obtain a b where e: "x # xs = a @ p @ b" by auto
    show "contains p (x # xs)"
    proof (cases a)
      case Nil
      then have "prefix p (x # xs)" using e by (simp add: prefix_def)
      then show ?thesis by simp
    next
      case (Cons y a')
      then have "xs = a' @ p @ b" using e by simp
      then have "contains p xs" using IH by blast
      then show ?thesis by simp
    qed
  qed
qed

lemma contains_join:
  assumes "l \<in> set ls" and "contains m l"
  shows "contains m (join sep ls)"
proof -
  from assms(1) obtain xs ys where ls: "ls = xs @ l # ys"
    by (auto simp: in_set_conv_decomp)
  from assms(2) obtain a b where l: "l = a @ m @ b"
    by (auto simp: contains_iff)
  have "\<exists>u v. join sep (xs @ l # ys) = u @ l @ v"
  proof (cases "xs = []")
    case True
    show ?thesis
    proof (cases "ys = []")
      case True
      with \<open>xs = []\<close> have "join sep (xs @ l # ys) = [] @ l @ []" by simp
      then show ?thesis by blast
    next
      case False
      with \<open>xs = []\<close> have "join sep (xs @ l # ys) = [] @ l @ (sep @ join sep ys)"
        by (simp add: join_Cons_Cons)
      then show ?thesis by blast
    qed
  next
    case False
    then have j: "join sep (xs @ l # ys) = join sep xs @ sep @ join sep (l # ys)"
      by (intro join_append) auto
    show ?thesis
    proof (cases "ys = []")
      case True
      with j have "join sep (xs @ l # ys) = (join sep xs @ sep) @ l @ []" by simp
      then show ?thesis by blast
    next
      case False
      with j have "join sep (xs @ l # ys) = (join sep xs @ sep) @ l @ (sep @ join sep ys)"
        by (simp add: join_Cons_Cons)
      then show ?thesis by blast
    qed
  qed
  then obtain u v where "join sep ls = u @ l @ v" using ls by auto
  then have "join sep ls = (u @ a) @ m @ (b @ v)" using l by simp
  then show ?thesis unfolding contains_iff by blast
qed

section \<open>Where an entry is inserted\<close>

lemma find_upt_Some:
  "find P [a..<b] = Some k \<longleftrightarrow> a \<le> k \<and> k < b \<and> P k \<and> (\<forall>j. a \<le> j \<and> j < k \<longrightarrow> \<not> P j)"
proof
  assume "find P [a..<b] = Some k"
  then obtain i where i: "i < length [a..<b]" "P ([a..<b] ! i)" "k = [a..<b] ! i"
      "\<forall>j<i. \<not> P ([a..<b] ! j)"
    unfolding find_Some_iff by blast
  then have k: "k = a + i" and ib: "i < b - a" by auto
  have "\<forall>j. a \<le> j \<and> j < k \<longrightarrow> \<not> P j"
  proof (intro allI impI)
    fix j assume j: "a \<le> j \<and> j < k"
    then have "j - a < i" using k by auto
    then have "\<not> P ([a..<b] ! (j - a))" using i(4) by blast
    moreover have "[a..<b] ! (j - a) = j" using j k ib by auto
    ultimately show "\<not> P j" by simp
  qed
  then show "a \<le> k \<and> k < b \<and> P k \<and> (\<forall>j. a \<le> j \<and> j < k \<longrightarrow> \<not> P j)"
    using i k ib by auto
next
  assume r: "a \<le> k \<and> k < b \<and> P k \<and> (\<forall>j. a \<le> j \<and> j < k \<longrightarrow> \<not> P j)"
  then have "k - a < length [a..<b]" and "[a..<b] ! (k - a) = k" by auto
  moreover have "\<forall>j<k - a. \<not> P ([a..<b] ! j)"
  proof (intro allI impI)
    fix j assume "j < k - a"
    then have "[a..<b] ! j = a + j" and "a + j < k" using r by auto
    then show "\<not> P ([a..<b] ! j)" using r by auto
  qed
  ultimately show "find P [a..<b] = Some k"
    unfolding find_Some_iff using r by (intro exI [of _ "k - a"]) auto
qed

lemma find_upt_None:
  "find P [a..<b] = None \<longleftrightarrow> (\<forall>j. a \<le> j \<and> j < b \<longrightarrow> \<not> P j)"
  by (auto simp: find_None_iff)

lemma find_marker_line_at:
  assumes "\<forall>l \<in> set pre. \<not> contains m l" and "contains m ml"
  shows "find_marker_line m (pre @ ml # post) = Some (length pre + 1)"
proof -
  have "find (\<lambda>i. contains m ((pre @ ml # post) ! i)) [0..<length (pre @ ml # post)]
          = Some (length pre)"
    unfolding find_upt_Some using assms by (auto simp: nth_append)
  then show ?thesis
    by (simp add: find_marker_line_def)
qed

lemma find_next_section_at:
  assumes "\<forall>l \<in> set (tl body). \<not> prefix (asc ''## '') l"
    and "body = [] \<longrightarrow> rest = []"
    and "rest \<noteq> [] \<longrightarrow> prefix (asc ''## '') (hd rest)"
  shows "find_next_section (pre @ ml # body @ rest) (length pre + 1) =
           length pre + 1 + length body"
proof -
  let ?lines = "pre @ ml # body @ rest"
  let ?P = "\<lambda>i. prefix (asc ''## '') (?lines ! i) \<and> i > length pre + 1"
  have inside: "\<not> ?P j" if "length pre + 1 \<le> j" and "j < length pre + 1 + length body" for j
  proof (cases "j = length pre + 1")
    case True
    then show ?thesis by simp
  next
    case False
    with that have j: "j - (length pre + 1) < length body" "0 < j - (length pre + 1)"
      by auto
    have "?lines ! j = body ! (j - (length pre + 1))"
      using that j by (simp add: nth_append nth_Cons')
    moreover have "body ! (j - (length pre + 1)) \<in> set (tl body)"
      using j by (cases body) (auto simp: nth_Cons')
    ultimately show ?thesis using assms(1) by auto
  qed
  show ?thesis
  proof (cases "rest = []")
    case True
    have "find ?P [length pre + 1 ..< length ?lines] = None"
      unfolding find_upt_None using inside True by auto
    then show ?thesis
      using True by (simp add: find_next_section_def)
  next
    case False
    with assms(2) have bne: "body \<noteq> []" by auto
    have "?lines ! (length pre + 1 + length body) = hd rest"
      using False by (simp add: nth_append hd_conv_nth)
    then have "?P (length pre + 1 + length body)"
      using assms(3) False bne by simp
    then have "find ?P [length pre + 1 ..< length ?lines] = Some (length pre + 1 + length body)"
      unfolding find_upt_Some using inside False by auto
    then show ?thesis
      by (simp add: find_next_section_def)
  qed
qed

lemma SECTIONS_nonempty: "SECTIONS sec = Some m \<Longrightarrow> m \<noteq> []"
  by (auto simp: SECTIONS_def asc_def split: if_splits)

lemma insert_entry_section_end:
  assumes sec: "SECTIONS sec = Some m"
    and lines: "split_on NL doc = pre @ ml # body @ rest"
    and pre: "\<forall>l \<in> set pre. \<not> contains m l"
    and ml: "contains m ml"
    and body: "\<forall>l \<in> set (tl body). \<not> prefix (asc ''## '') l"
    and nonempty: "body = [] \<longrightarrow> rest = []"
    and rest: "rest \<noteq> [] \<longrightarrow> prefix (asc ''## '') (hd rest)"
  shows "insert_entry now sec entry (Some doc) =
           Some (join [NL] (pre @ ml # body @ entry # rest))"
proof -
  have doc: "doc = join [NL] (pre @ ml # body @ rest)"
    using join_split_on [of NL doc] lines by simp
  have c: "contains m doc"
    unfolding doc by (rule contains_join [of ml]) (use ml in auto)
  have f: "find_marker_line m (split_on NL doc) = Some (length pre + 1)"
    unfolding lines by (rule find_marker_line_at [OF pre ml])
  have n: "find_next_section (split_on NL doc) (length pre + 1) = length pre + 1 + length body"
    unfolding lines by (rule find_next_section_at [OF body nonempty rest])
  have t: "take (length pre + 1 + length body) (pre @ ml # body @ rest) = pre @ ml # body"
    and d: "drop (length pre + 1 + length body) (pre @ ml # body @ rest) = rest"
    by simp_all
  show ?thesis
    using sec SECTIONS_nonempty [OF sec] c f n
    by (simp add: insert_entry_def ensure_file_exists_def Let_def lines t d)
qed



text \<open>
  C2, as the code has it. When the lines of the document are \<open>pre\<close>, then the first line
  that holds the section's marker, then the lines \<open>body\<close> of the section, then \<open>rest\<close>
  beginning with the next line that starts with \<open>## \<close> (or nothing, at the end of the
  document), \<open>insert_entry\<close> puts the entry after \<open>body\<close>, directly before that next
  header or at the end of the document: the newest entry is the last of its section.
  (The line right after the marker line is never taken for the next header; a section with
  no line at all before the next header is left out here.)
\<close>

theorem insert_entry_before_next_section:
  assumes "SECTIONS sec = Some m"
    and "split_on NL doc = pre @ ml # body @ rest"
    and "\<forall>l \<in> set pre. \<not> contains m l"
    and "contains m ml"
    and "\<forall>l \<in> set (tl body). \<not> prefix (asc ''## '') l"
    and "body = [] \<longrightarrow> rest = []"
    and "rest \<noteq> [] \<longrightarrow> prefix (asc ''## '') (hd rest)"
  shows "insert_entry now sec entry (Some doc) =
           Some (join [NL] (pre @ ml # body @ entry # rest))"
  using assms by (rule insert_entry_section_end)

lemma small_doc_lines:
  "split_on NL small_doc =
     [asc ''**Updated:** 2026-01-01 09:00 UTC'', asc ''## SESSION METADATA'', asc ''started''] @
     asc ''## COMPLETED THIS SESSION'' # [asc ''old entry''] @
     [asc ''## LOST CONTEXT INSURANCE / Debugging History'', asc ''notes'',
      asc ''## PREVIOUSLY COMPLETED'', asc ''history'']"
  by code_simp

theorem insert_entry_before_next_section_witness:
  "SECTIONS (asc ''success'') = Some (asc ''## COMPLETED THIS SESSION'') \<and>
   list_all (\<lambda>l. \<not> contains (asc ''## COMPLETED THIS SESSION'') l)
     [asc ''**Updated:** 2026-01-01 09:00 UTC'', asc ''## SESSION METADATA'', asc ''started''] \<and>
   contains (asc ''## COMPLETED THIS SESSION'') (asc ''## COMPLETED THIS SESSION'') \<and>
   list_all (\<lambda>l. \<not> prefix (asc ''## '') l) (tl [asc ''old entry'']) \<and>
   prefix (asc ''## '') (asc ''## LOST CONTEXT INSURANCE / Debugging History'') \<and>
   insert_entry now0 (asc ''success'') (asc ''NEW'') (Some small_doc) =
     Some (join [NL]
       [asc ''**Updated:** 2026-01-01 09:00 UTC'', asc ''## SESSION METADATA'', asc ''started'',
        asc ''## COMPLETED THIS SESSION'', asc ''old entry'', asc ''NEW'',
        asc ''## LOST CONTEXT INSURANCE / Debugging History'', asc ''notes'',
        asc ''## PREVIOUSLY COMPLETED'', asc ''history''])"
proof -
  have sec: "SECTIONS (asc ''success'') = Some (asc ''## COMPLETED THIS SESSION'')"
    by code_simp
  have pre: "\<forall>l \<in> set [asc ''**Updated:** 2026-01-01 09:00 UTC'', asc ''## SESSION METADATA'',
                 asc ''started'']. \<not> contains (asc ''## COMPLETED THIS SESSION'') l"
    by code_simp
  have ml: "contains (asc ''## COMPLETED THIS SESSION'') (asc ''## COMPLETED THIS SESSION'')"
    by code_simp
  have bd: "\<forall>l \<in> set (tl [asc ''old entry'']). \<not> prefix (asc ''## '') l"
    by simp
  have ne: "[asc ''old entry''] = [] \<longrightarrow>
            [asc ''## LOST CONTEXT INSURANCE / Debugging History'', asc ''notes'',
             asc ''## PREVIOUSLY COMPLETED'', asc ''history''] = []"
    by simp
  have hdr: "prefix (asc ''## '') (asc ''## LOST CONTEXT INSURANCE / Debugging History'')"
    by code_simp
  then have rest: "[asc ''## LOST CONTEXT INSURANCE / Debugging History'', asc ''notes'',
             asc ''## PREVIOUSLY COMPLETED'', asc ''history''] \<noteq> [] \<longrightarrow>
            prefix (asc ''## '') (hd [asc ''## LOST CONTEXT INSURANCE / Debugging History'',
              asc ''notes'', asc ''## PREVIOUSLY COMPLETED'', asc ''history''])"
    by simp
  from insert_entry_before_next_section [OF sec small_doc_lines pre ml bd ne rest, of now0 "asc ''NEW''"]
    sec pre ml bd hdr
  show ?thesis by (simp add: list_all_iff)
qed

text \<open>
  C2 as stated fails: in \<open>small_doc\<close> the section of completions holds the line
  \<open>old entry\<close>, and the new entry lands after it, not directly after the marker line.
\<close>

theorem insert_entry_not_after_marker:
  "insert_entry now0 (asc ''success'') (asc ''NEW'') (Some small_doc) =
     Some (join [NL]
       [asc ''**Updated:** 2026-01-01 09:00 UTC'', asc ''## SESSION METADATA'', asc ''started'',
        asc ''## COMPLETED THIS SESSION'', asc ''old entry'', asc ''NEW'',
        asc ''## LOST CONTEXT INSURANCE / Debugging History'', asc ''notes'',
        asc ''## PREVIOUSLY COMPLETED'', asc ''history'']) \<and>
   insert_entry now0 (asc ''success'') (asc ''NEW'') (Some small_doc) \<noteq>
     Some (join [NL]
       [asc ''**Updated:** 2026-01-01 09:00 UTC'', asc ''## SESSION METADATA'', asc ''started'',
        asc ''## COMPLETED THIS SESSION'', asc ''NEW'', asc ''old entry'',
        asc ''## LOST CONTEXT INSURANCE / Debugging History'', asc ''notes'',
        asc ''## PREVIOUSLY COMPLETED'', asc ''history''])"
  by code_simp

section \<open>Several entries in one section\<close>










subsection \<open>Reading the error section back\<close>










section \<open>The timestamp of the header\<close>






subsection \<open>What the two patterns match\<close>














subsection \<open>Substituting and searching, field by field\<close>















subsection \<open>An insertion keeps the fields of the document\<close>










end
